theory Spec2Isabelle
  imports Main "HOL-Library.Word"
begin

section \<open>Data model\<close>

text \<open>
  A shallow embedding of \<^verbatim>\<open>HackGULastRecodePatch.py\<close>.

  Python's unbounded integers are \<open>int\<close>. A \<^verbatim>\<open>bytes\<close> object is a list of 8-bit
  words. A \<^verbatim>\<open>str\<close> is a \<open>string\<close> whose characters are read as code points below 256;
  code points from 256 on are outside the model. Exceptions are values of \<open>error\<close>.
\<close>

type_synonym byte = "8 word"

datatype error = ValueError | OverflowError | IndexError

text \<open>The lines the script prints, one constructor per \<^verbatim>\<open>print\<close> call.\<close>

datatype msg =
    Editing string
  | CannotFind string
  | Reinstall
  | Found string nat
  | Replaced string nat
  | FileNotFound string
  | YamlWidth int
  | YamlHeight int
  | PatchTxtFound
  | WillSearch string
  | PatchTxtNotFound
  | WillSearchDefault string

text \<open>
  The part of the world the script touches: the game's library files by path (a missing
  path is a missing file), the record file \<^verbatim>\<open>patch.txt\<close> (\<open>None\<close> when it does not
  exist) and standard output.
\<close>

record world =
  dlls :: "string \<rightharpoonup> byte list"
  patch_txt :: "string option"
  out :: "msg list"

record monitor =
  m_width :: int
  m_height :: int
  is_primary :: bool

section \<open>String operations of the Python library\<close>

text \<open>\<^verbatim>\<open>str.isspace\<close> on one code point below 256.\<close>

definition isspace :: "char \<Rightarrow> bool" where
  "isspace c =
     (let n = (of_char c :: nat)
      in (9 \<le> n \<and> n \<le> 13) \<or> (28 \<le> n \<and> n \<le> 32) \<or> n = 133 \<or> n = 160)"

text \<open>
  \<^verbatim>\<open>str.split()\<close> without arguments: the maximal runs of characters that are not
  whitespace, in order. \<open>cur\<close> is the token being read.
\<close>

fun split_from :: "string \<Rightarrow> string \<Rightarrow> string list" where
  "split_from cur [] = (if cur = [] then [] else [cur])"
| "split_from cur (c # cs) =
     (if isspace c
      then (if cur = [] then split_from [] cs else cur # split_from [] cs)
      else split_from (cur @ [c]) cs)"

definition str_split :: "string \<Rightarrow> string list" where
  "str_split s = split_from [] s"

text \<open>\<^verbatim>\<open>str.strip()\<close> without arguments.\<close>

definition str_strip :: "string \<Rightarrow> string" where
  "str_strip s = rev (dropWhile isspace (rev (dropWhile isspace s)))"

text \<open>\<^verbatim>\<open>sep.join(xs)\<close>.\<close>

fun str_join :: "string \<Rightarrow> string list \<Rightarrow> string" where
  "str_join sep [] = []"
| "str_join sep [x] = x"
| "str_join sep (x # y # ys) = x @ sep @ str_join sep (y # ys)"

section \<open>\<^verbatim>\<open>int(token, 16)\<close>\<close>

text \<open>The value of a base-16 digit; \<open>None\<close> for every other character.\<close>

definition digit_value :: "char \<Rightarrow> nat option" where
  "digit_value c =
     (let n = (of_char c :: nat)
      in if 48 \<le> n \<and> n \<le> 57 then Some (n - 48)
         else if 97 \<le> n \<and> n \<le> 102 then Some (n - 87)
         else if 65 \<le> n \<and> n \<le> 70 then Some (n - 55)
         else None)"

text \<open>
  The digit scan of CPython's integer parser: digits, with single underscores between
  them. \<open>prev_us\<close> tells whether the previous character was an underscore; the scan fails
  on a doubled or trailing underscore and on any character that is not a digit.
\<close>

fun scan_digits :: "bool \<Rightarrow> int \<Rightarrow> string \<Rightarrow> int option" where
  "scan_digits prev_us acc [] = (if prev_us then None else Some acc)"
| "scan_digits prev_us acc (c # cs) =
     (if c = CHR ''_''
      then (if prev_us then None else scan_digits True acc cs)
      else (case digit_value c of
              None \<Rightarrow> None
            | Some d \<Rightarrow> scan_digits False (16 * acc + int d) cs))"

text \<open>
  \<^verbatim>\<open>int(token, 16)\<close> for a token without whitespace, which is what \<^verbatim>\<open>split()\<close>
  yields (so the stripping of surrounding whitespace that \<^verbatim>\<open>int\<close> does first is the
  identity): an optional sign, an optional \<^verbatim>\<open>0x\<close> or \<^verbatim>\<open>0X\<close> prefix that one
  underscore may follow, then at least one digit. Every rejection is a \<open>ValueError\<close>.
\<close>

definition int16 :: "string \<Rightarrow> error + int" where
  "int16 token =
     (let (sign, s1) =
            (case token of
               [] \<Rightarrow> (1, token)
             | c # r \<Rightarrow>
                 if c = CHR ''+'' then (1, r)
                 else if c = CHR ''-'' then (- 1, r)
                 else (1, token));
          s2 =
            (case s1 of
               a # b # r \<Rightarrow>
                 if a = CHR ''0'' \<and> (b = CHR ''x'' \<or> b = CHR ''X'')
                 then (case r of
                         [] \<Rightarrow> r
                       | u # r' \<Rightarrow> if u = CHR ''_'' then r' else r)
                 else s1
             | _ \<Rightarrow> s1)
      in case s2 of
           [] \<Rightarrow> Inl ValueError
         | c # _ \<Rightarrow>
             if c = CHR ''_'' then Inl ValueError
             else (case scan_digits False 0 s2 of
                     None \<Rightarrow> Inl ValueError
                   | Some v \<Rightarrow> Inr (sign * v)))"

section \<open>parse_signature\<close>

text \<open>The \<^verbatim>\<open>for token in signature.split()\<close> loop, appending to \<open>byte_array\<close>.\<close>

fun parse_loop :: "int list \<Rightarrow> string list \<Rightarrow> error + int list" where
  "parse_loop byte_array [] = Inr byte_array"
| "parse_loop byte_array (token # rest) =
     (if token = ''?'' \<or> token = ''??''
      then parse_loop (byte_array @ [0]) rest
      else (case int16 token of
              Inl e \<Rightarrow> Inl e
            | Inr v \<Rightarrow> parse_loop (byte_array @ [v]) rest))"

text \<open>\<^verbatim>\<open>bytes(byte_array)\<close>: a \<open>ValueError\<close> unless every element is in \<open>range(256)\<close>.\<close>

definition bytes_of :: "int list \<Rightarrow> error + byte list" where
  "bytes_of xs =
     (if list_all (\<lambda>x. 0 \<le> x \<and> x < 256) xs
      then Inr (map word_of_int xs)
      else Inl ValueError)"

definition parse_signature :: "string \<Rightarrow> error + byte list" where
  "parse_signature signature =
     (case parse_loop [] (str_split signature) of
        Inl e \<Rightarrow> Inl e
      | Inr byte_array \<Rightarrow> bytes_of byte_array)"

section \<open>edit_dll\<close>

text \<open>
  \<^verbatim>\<open>data.find(sub, 0)\<close>: the lowest index at which \<open>sub\<close> occurs in \<open>data\<close>;
  \<open>None\<close> stands for Python's \<open>-1\<close>. \<open>i\<close> is the index of the head of the remaining data.
\<close>

fun find_from :: "nat \<Rightarrow> byte list \<Rightarrow> byte list \<Rightarrow> nat option" where
  "find_from i sub [] = (if sub = [] then Some i else None)"
| "find_from i sub (d # ds) =
     (if take (length sub) (d # ds) = sub then Some i
      else find_from (Suc i) sub ds)"

definition bytes_find :: "byte list \<Rightarrow> byte list \<Rightarrow> nat option" where
  "bytes_find data sub = find_from 0 sub data"

text \<open>
  \<^verbatim>\<open>file.seek(offset); file.write(rp)\<close> on a file holding \<open>data\<close>, for
  \<open>offset \<le> length data\<close>: the bytes from \<open>offset\<close> on are overwritten, and the file
  grows when \<open>rp\<close> reaches past its end.
\<close>

definition seek_write :: "nat \<Rightarrow> byte list \<Rightarrow> byte list \<Rightarrow> byte list" where
  "seek_write offset rp data = take offset data @ rp @ drop (offset + length rp) data"

definition print :: "msg \<Rightarrow> world \<Rightarrow> world" where
  "print m w = w\<lparr>out := out w @ [m]\<rparr>"

text \<open>
  The result pairs the exception that left the function (\<open>None\<close> when it returned; the
  Python function returns \<^verbatim>\<open>None\<close> on every path) with the world it leaves behind.
  Both signatures are parsed before the file is opened, outside the \<^verbatim>\<open>try\<close>.
  A missing file is \<^verbatim>\<open>FileNotFoundError\<close>, caught and printed.
\<close>

definition edit_dll :: "string \<Rightarrow> string \<Rightarrow> string \<Rightarrow> world \<Rightarrow> error option \<times> world" where
  "edit_dll game_path search_pattern0 replace_pattern w0 =
     (let w1 = print (Editing game_path) w0;
          search_pattern = str_strip search_pattern0
      in case parse_signature search_pattern of
           Inl e \<Rightarrow> (Some e, w1)
         | Inr sp1 \<Rightarrow>
        (case parse_signature replace_pattern of
           Inl e \<Rightarrow> (Some e, w1)
         | Inr rp \<Rightarrow>
        (case dlls w1 game_path of
           None \<Rightarrow> (None, print (FileNotFound game_path) w1)
         | Some data \<Rightarrow>
        (case bytes_find data sp1 of
           None \<Rightarrow> (None, print Reinstall (print (CannotFind search_pattern) w1))
         | Some offset \<Rightarrow>
             (let w2 = print (Found search_pattern offset) w1;
                  w3 = w2\<lparr>dlls := (dlls w2)(game_path \<mapsto> seek_write offset rp data)\<rparr>;
                  w4 = print (Replaced replace_pattern offset) w3
              in (None, w4\<lparr>patch_txt := Some replace_pattern\<rparr>))))))"

section \<open>patch\<close>

text \<open>
  \<^verbatim>\<open>get_desktop_resolution\<close> over the list \<^verbatim>\<open>get_monitors()\<close> returns: the first
  primary monitor, else the first monitor; indexing an empty list is an \<open>IndexError\<close>.
\<close>

definition get_desktop_resolution :: "monitor list \<Rightarrow> error + int \<times> int" where
  "get_desktop_resolution monitors =
     (case filter is_primary monitors of
        m # _ \<Rightarrow> Inr (m_width m, m_height m)
      | [] \<Rightarrow>
          (case monitors of
             [] \<Rightarrow> Inl IndexError
           | primary_monitor # _ \<Rightarrow> Inr (m_width primary_monitor, m_height primary_monitor)))"

text \<open>
  \<^verbatim>\<open>n.to_bytes(4, byteorder="little", signed=False)\<close>: an \<open>OverflowError\<close> for a
  negative \<open>n\<close> and for \<open>n\<close> from \<open>2 ^ 32\<close> on.
\<close>

definition to_bytes4 :: "int \<Rightarrow> error + byte list" where
  "to_bytes4 n =
     (if n < 0 \<or> 2 ^ 32 \<le> n then Inl OverflowError
      else Inr [word_of_int n, word_of_int (n div 2 ^ 8),
                word_of_int (n div 2 ^ 16), word_of_int (n div 2 ^ 24)])"

text \<open>
  \<^verbatim>\<open>int(d / 2)\<close>. The true division yields a double. For \<open>\<bar>d\<bar> < 2 ^ 53\<close> the quotient
  is representable exactly and \<^verbatim>\<open>int\<close> truncates it toward zero. For a larger \<open>\<bar>d\<bar>\<close> the
  division either raises \<open>OverflowError\<close> (quotient beyond the doubles) or yields a
  rounded double of magnitude at least \<open>2 ^ 52\<close>, on which the 4-byte serialisation of
  the offset raises \<open>OverflowError\<close>; no statement between the two raises anything
  else, so the model raises \<open>OverflowError\<close> here.
\<close>

definition int_truediv2 :: "int \<Rightarrow> error + int" where
  "int_truediv2 d =
     (if \<bar>d\<bar> < 2 ^ 53
      then Inr (if 0 \<le> d then d div 2 else - ((- d) div 2))
      else Inl OverflowError)"

text \<open>\<^verbatim>\<open>f"{byte:02X}"\<close>: two uppercase hexadecimal digits.\<close>

definition hex_digit :: "nat \<Rightarrow> char" where
  "hex_digit n = ''0123456789ABCDEF'' ! n"

definition hex02X :: "byte \<Rightarrow> string" where
  "hex02X b = [hex_digit (unat b div 16), hex_digit (unat b mod 16)]"

text \<open>\<^verbatim>\<open>" ".join(f"{byte:02X}" for byte in bs)\<close>.\<close>

definition hex_text :: "byte list \<Rightarrow> string" where
  "hex_text bs = str_join '' '' (map hex02X bs)"

record fields =
  f_special :: string
  f_width :: string
  f_height :: string
  f_offset :: string

text \<open>
  The arithmetic of \<^verbatim>\<open>patch\<close>, in the order of the source, from the configured
  \<open>width\<close> and \<open>height\<close> and the desktop resolution.
\<close>

definition effective_resolution :: "int \<Rightarrow> int \<Rightarrow> int \<Rightarrow> int \<Rightarrow> int \<times> int" where
  "effective_resolution width height desktop_width desktop_height =
     (if width = 0 \<or> height = 0 then (desktop_width, desktop_height) else (width, height))"

definition patch_fields :: "int \<Rightarrow> int \<Rightarrow> int \<Rightarrow> int \<Rightarrow> error + fields" where
  "patch_fields width0 height0 desktop_width desktop_height =
     (let (width, height) = effective_resolution width0 height0 desktop_width desktop_height
      in case int_truediv2 (desktop_width - width) of
           Inl e \<Rightarrow> Inl e
         | Inr offset \<Rightarrow>
        (case to_bytes4 (push_bit 4 height) of
           Inl e \<Rightarrow> Inl e
         | Inr special \<Rightarrow>
        (case to_bytes4 width of
           Inl e \<Rightarrow> Inl e
         | Inr width_b \<Rightarrow>
        (case to_bytes4 height of
           Inl e \<Rightarrow> Inl e
         | Inr height_b \<Rightarrow>
        (case to_bytes4 offset of
           Inl e \<Rightarrow> Inl e
         | Inr offset_b \<Rightarrow>
             Inr \<lparr>f_special = hex_text special, f_width = hex_text width_b,
                  f_height = hex_text height_b, f_offset = hex_text offset_b\<rparr>)))))"

definition default_search_pattern :: string where
  "default_search_pattern =
     ''20 03 00 00 58 02 00 00 00 04 00 00 00 03 00 00 00 05 00 00 D0 02 00 00 00 05 00 00 20 03 00 00 00 05 00 00 00 04 00 00 50 05 00 00 00 03 00 00 A0 05 00 00 84 03 00 00 40 06 00 00 84 03 00 00 40 06 00 00 B0 04 00 00 90 06 00 00 1A 04 00 00 80 07 00 00 38 04 00 00 80 07 00 00 B0 04 00 00 00 0A 00 00 A0 05 00 00 00 0A 00 00 40 06 00 00 00 0F 00 00 70 08 00 00''"

text \<open>\<^verbatim>\<open>f"{width} {height} " * 15\<close>.\<close>

definition build_replace_pattern :: "string \<Rightarrow> string \<Rightarrow> string" where
  "build_replace_pattern width height =
     concat (replicate 15 (width @ '' '' @ height @ '' ''))"

text \<open>
  \<^verbatim>\<open>file.readlines()[0]\<close> of a text file: the first line (with universal newlines, up
  to the first line end), an \<open>IndexError\<close> when the file is empty. The line end itself
  is whitespace, which the \<^verbatim>\<open>strip()\<close> that follows removes.
\<close>

definition first_line :: "string \<Rightarrow> error + string" where
  "first_line txt =
     (if txt = [] then Inl IndexError
      else Inr (takeWhile (\<lambda>c. c \<noteq> CHR 0x0A \<and> c \<noteq> CHR 0x0D) txt))"

text \<open>The six calls of \<^verbatim>\<open>edit_dll\<close>, one after another; an exception ends the run.\<close>

fun edit_each :: "string list \<Rightarrow> string \<Rightarrow> string \<Rightarrow> world \<Rightarrow> error option \<times> world" where
  "edit_each [] search_pattern replace_pattern w = (None, w)"
| "edit_each (p # ps) search_pattern replace_pattern w =
     (case edit_dll p search_pattern replace_pattern w of
        (Some e, w') \<Rightarrow> (Some e, w')
      | (None, w') \<Rightarrow> edit_each ps search_pattern replace_pattern w')"

definition target_files :: "string list" where
  "target_files =
     [''../hackGU_terminal.dll'', ''../hackGU_title.dll'', ''../hackGU_vol1.dll'',
      ''../hackGU_vol2.dll'', ''../hackGU_vol3.dll'', ''../hackGU_vol4.dll'']"

text \<open>
  \<^verbatim>\<open>patch\<close>. \<open>yaml_data\<close> is what \<^verbatim>\<open>read_yaml\<close> returned, reduced to the two integers
  read from it (\<open>None\<close> when the file is missing or malformed); \<open>monitors\<close> is what
  \<^verbatim>\<open>get_monitors()\<close> returns.
\<close>

definition patch :: "(int \<times> int) option \<Rightarrow> monitor list \<Rightarrow> world \<Rightarrow> error option \<times> world" where
  "patch yaml_data monitors w0 =
     (case yaml_data of
        None \<Rightarrow> (None, w0)
      | Some (width, height) \<Rightarrow>
          (let w1 = print (YamlHeight height) (print (YamlWidth width) w0)
           in case get_desktop_resolution monitors of
                Inl e \<Rightarrow> (Some e, w1)
              | Inr (desktop_width, desktop_height) \<Rightarrow>
             (case patch_fields width height desktop_width desktop_height of
                Inl e \<Rightarrow> (Some e, w1)
              | Inr f \<Rightarrow>
                  (let replace_pattern = build_replace_pattern (f_width f) (f_height f)
                   in case patch_txt w1 of
                        None \<Rightarrow>
                          edit_each target_files default_search_pattern replace_pattern
                            (print (WillSearchDefault default_search_pattern)
                               (print PatchTxtNotFound w1))
                      | Some txt \<Rightarrow>
                          (let w2 = print PatchTxtFound w1
                           in case first_line txt of
                                Inl e \<Rightarrow> (Some e, w2)
                              | Inr l \<Rightarrow>
                                  edit_each target_files (str_strip l) replace_pattern
                                    (print (WillSearch (str_strip l)) w2))))))"

section \<open>Notions used to state the properties\<close>

text \<open>The integer a byte sequence denotes when read as little-endian and unsigned.\<close>

definition le_value :: "byte list \<Rightarrow> int" where
  "le_value bs = foldr (\<lambda>b acc. uint b + 256 * acc) bs 0"

text \<open>Token lists that \<open>str_split\<close> can yield: no token is empty or holds whitespace.\<close>

definition good_tokens :: "string list \<Rightarrow> bool" where
  "good_tokens ts = list_all (\<lambda>t. t \<noteq> [] \<and> list_all (\<lambda>c. \<not> isspace c) t) ts"

text \<open>The hexadecimal digits, and the value of each.\<close>

definition hex_chars :: string where
  "hex_chars = ''0123456789abcdefABCDEF''"

definition hex_char_value :: "char \<Rightarrow> int" where
  "hex_char_value c =
     (case map_of (zip hex_chars [0, 1, 2, 3, 4, 5, 6, 7, 8, 9, 10, 11, 12, 13, 14, 15,
                                  10, 11, 12, 13, 14, 15]) c of
        None \<Rightarrow> 0
      | Some v \<Rightarrow> v)"

text \<open>A token that is a two-hex-digit byte, a wildcard marker, and the byte a token denotes.\<close>

definition is_byte_token :: "string \<Rightarrow> bool" where
  "is_byte_token t = (length t = 2 \<and> list_all (\<lambda>c. c \<in> set hex_chars) t)"

definition is_wildcard :: "string \<Rightarrow> bool" where
  "is_wildcard t = (t = ''?'' \<or> t = ''??'')"

definition token_value :: "string \<Rightarrow> byte" where
  "token_value t =
     (if is_wildcard t then 0
      else (case t of
              [a, b] \<Rightarrow> word_of_int (16 * hex_char_value a + hex_char_value b)
            | _ \<Rightarrow> 0))"

text \<open>
  What one round of the loop of \<^verbatim>\<open>parse_signature\<close> appends for a token, and the tokens
  on which the function fails: those that are not a wildcard marker and that
  \<^verbatim>\<open>int(token, 16)\<close> rejects or maps outside \<open>range(256)\<close>.
\<close>

definition token_int :: "string \<Rightarrow> error + int" where
  "token_int t = (if t = ''?'' \<or> t = ''??'' then Inr 0 else int16 t)"

definition token_fails :: "string \<Rightarrow> bool" where
  "token_fails t = (case token_int t of Inl e \<Rightarrow> True | Inr v \<Rightarrow> v < 0 \<or> 256 \<le> v)"

text \<open>The byte sequence \<open>sub\<close> occurs in \<open>data\<close> at offset \<open>i\<close>.\<close>

definition occurs_at :: "byte list \<Rightarrow> byte list \<Rightarrow> nat \<Rightarrow> bool" where
  "occurs_at sub data i = (i \<le> length data \<and> take (length sub) (drop i data) = sub)"

section \<open>Little-endian serialisation\<close>

lemma uint_byte_of_int: "uint (word_of_int k :: byte) = k mod 256"
  by (simp add: uint_word_of_int_eq take_bit_eq_mod)

lemma le_value_simps: "le_value [] = 0" "le_value (b # bs) = uint b + 256 * le_value bs"
  by (simp_all add: le_value_def)

lemma le_value_four: "le_value [word_of_int a, word_of_int b, word_of_int c, word_of_int d] = a mod 256 + 256 * (b mod 256 + 256 * (c mod 256 + 256 * (d mod 256)))"
  unfolding le_value_simps uint_byte_of_int by simp

lemma le4_recompose:
  fixes n :: int
  assumes "0 \<le> n" "n < 2 ^ 32"
  shows "n mod 256 + 256 * (n div 256 mod 256 + 256 * (n div 65536 mod 256 + 256 * (n div 16777216 mod 256))) = n"
proof -
  define a where "a = n div 256"
  define b where "b = a div 256"
  define c where "c = b div 256"
  define r0 where "r0 = n mod 256"
  define r1 where "r1 = a mod 256"
  define r2 where "r2 = b mod 256"
  have b: "n div 65536 = b" and c: "n div 16777216 = c"
    by (simp_all add: a_def b_def c_def div_mult2_eq [symmetric])
  have "c < 256" "0 \<le> c" using assms unfolding c [symmetric] by simp_all
  then have cm: "c mod 256 = c" by simp
  have 1: "n = 256 * a + r0" unfolding a_def r0_def by simp
  have 2: "a = 256 * b + r1" unfolding b_def r1_def by simp
  have 3: "b = 256 * c + r2" unfolding c_def r2_def by simp
  have "r0 + 256 * (r1 + 256 * (r2 + 256 * c)) = n"
  proof -
    have "n = 256 * (256 * (256 * c + r2) + r1) + r0"
      using 1 2 3 by simp
    then show ?thesis by simp
  qed
  then show ?thesis
    unfolding b c cm a_def [symmetric] r0_def r1_def r2_def .
qed

lemma to_bytes4_le_value:
  assumes "to_bytes4 n = Inr bs"
  shows "length bs = 4 \<and> le_value bs = n"
proof -
  from assms have r: "0 \<le> n" "n < 2 ^ 32"
    by (auto simp: to_bytes4_def split: if_splits)
  from assms r have bs: "bs = [word_of_int n, word_of_int (n div 2 ^ 8),
                word_of_int (n div 2 ^ 16), word_of_int (n div 2 ^ 24)]"
    by (simp add: to_bytes4_def)
  have "le_value bs = n mod 256 + 256 * (n div 256 mod 256 + 256 * (n div 65536 mod 256 + 256 * (n div 16777216 mod 256)))"
    unfolding bs le_value_four by simp
  also have "\<dots> = n" by (rule le4_recompose [OF r])
  finally have "le_value bs = n" .
  moreover have "length bs = 4" unfolding bs by simp
  ultimately show ?thesis by blast
qed

section \<open>Rendering bytes as hexadecimal text and parsing them back\<close>

lemma digit_value_hex_digits:
  "list_all (\<lambda>n. digit_value (hex_digit n) = Some n) [0..<16]"
  by code_simp

lemma digit_value_hex_digit: "n < 16 \<Longrightarrow> digit_value (hex_digit n) = Some n"
  using digit_value_hex_digits unfolding list_all_iff by simp

lemma digit_value_not_space: "digit_value c = Some d \<Longrightarrow> \<not> isspace c"
  by (auto simp: digit_value_def isspace_def Let_def split: if_splits)

lemma digit_value_not_special:
  assumes "digit_value c = Some d"
  shows "c \<noteq> CHR ''+''" "c \<noteq> CHR ''-''" "c \<noteq> CHR ''_''" "c \<noteq> CHR ''x''" "c \<noteq> CHR ''X''" "c \<noteq> CHR ''?''"
  using assms by (auto simp: digit_value_def)

lemma int16_two_digits:
  assumes "digit_value c1 = Some a" "digit_value c2 = Some b"
  shows "int16 [c1, c2] = Inr (16 * int a + int b)"
  using assms digit_value_not_special [OF assms(1)] digit_value_not_special [OF assms(2)]
  by (simp add: int16_def)

lemma int16_hex02X: "int16 (hex02X b) = Inr (uint b)"
proof -
  have h: "unat b div 16 < 16" using unsigned_less [of b, where 'a = nat] by simp 
  have l: "unat b mod 16 < 16" by simp
  have "int16 (hex02X b) = Inr (16 * int (unat b div 16) + int (unat b mod 16))"
    unfolding hex02X_def
    by (rule int16_two_digits [OF digit_value_hex_digit [OF h] digit_value_hex_digit [OF l]])
  also have "16 * int (unat b div 16) + int (unat b mod 16) = uint b"
  proof -
    have "int (16 * (unat b div 16) + unat b mod 16) = int (unat b)"
      by (rule arg_cong [where f = int]) simp
    then show ?thesis
      by (simp only: of_nat_add of_nat_mult of_nat_numeral uint_nat)
  qed
  finally show ?thesis .
qed

lemma hex02X_token:
  "hex02X b \<noteq> []" "list_all (\<lambda>c. \<not> isspace c) (hex02X b)" "hex02X b \<noteq> ''?''" "hex02X b \<noteq> ''??''"
proof -
  have h: "unat b div 16 < 16" using unsigned_less [of b, where 'a = nat] by simp 
  have l: "unat b mod 16 < 16" by simp
  note dh = digit_value_hex_digit [OF h] and dl = digit_value_hex_digit [OF l]
  show "hex02X b \<noteq> []" "hex02X b \<noteq> ''?''" by (simp_all add: hex02X_def)
  show "list_all (\<lambda>c. \<not> isspace c) (hex02X b)"
    using digit_value_not_space [OF dh] digit_value_not_space [OF dl] by (simp add: hex02X_def)
  show "hex02X b \<noteq> ''??''"
    using digit_value_not_special(6) [OF dh] by (simp add: hex02X_def)
qed

lemma split_from_nonspace:
  "list_all (\<lambda>c. \<not> isspace c) t \<Longrightarrow> split_from cur (t @ rest) = split_from (cur @ t) rest"
  by (induction t arbitrary: cur) simp_all

lemma split_from_token:
  assumes "t \<noteq> []" "list_all (\<lambda>c. \<not> isspace c) t" "isspace sp"
  shows "split_from [] (t @ sp # rest) = t # split_from [] rest"
  using assms by (simp add: split_from_nonspace)

lemma split_from_token_end:
  assumes "t \<noteq> []" "list_all (\<lambda>c. \<not> isspace c) t"
  shows "split_from [] t = [t]"
  using assms split_from_nonspace [of t "[]" "[]"] by simp

lemma isspace_space: "isspace CHR '' ''"
  by (simp add: isspace_def)


lemma split_join_then:
  "good_tokens ts \<Longrightarrow> split_from [] (str_join '' '' ts @ '' '' @ rest) = ts @ split_from [] rest"
proof (induction "'' ''" ts rule: str_join.induct)
  case 1
  then show ?case by (simp add: isspace_space)
next
  case (2 x)
  then show ?case
    using split_from_token [of x "CHR '' ''" rest] by (simp add: good_tokens_def isspace_space)
next
  case (3 x y ys)
  then show ?case
    using split_from_token [of x "CHR '' ''" "str_join '' '' (y # ys) @ '' '' @ rest"]
    by (simp add: good_tokens_def isspace_space)
qed

lemma split_join:
  "good_tokens ts \<Longrightarrow> split_from [] (str_join '' '' ts) = ts"
proof (induction "'' ''" ts rule: str_join.induct)
  case 1
  then show ?case by simp
next
  case (2 x)
  then show ?case
    using split_from_token_end [of x] by (simp add: good_tokens_def)
next
  case (3 x y ys)
  then show ?case
    using split_from_token [of x "CHR '' ''" "str_join '' '' (y # ys)"]
    by (simp add: good_tokens_def isspace_space)
qed

lemma good_tokens_hex: "good_tokens (map hex02X bs)"
  by (induction bs) (simp_all add: good_tokens_def hex02X_token)

lemma str_split_hex_text: "str_split (hex_text bs) = map hex02X bs"
  by (simp add: str_split_def hex_text_def split_join good_tokens_hex)

lemma parse_loop_hex: "parse_loop acc (map hex02X bs) = Inr (acc @ map uint bs)"
  by (induction bs arbitrary: acc) (simp_all add: hex02X_token int16_hex02X)

lemma bytes_of_uint: "bytes_of (map uint (bs :: byte list)) = Inr bs"
proof -
  have "list_all (\<lambda>x. 0 \<le> x \<and> x < 256) (map uint bs)"
    using uint_bounded [where 'a = 8] by (induction bs) simp_all
  moreover have "map word_of_int (map uint bs) = bs"
    by (induction bs) simp_all
  ultimately show ?thesis by (simp add: bytes_of_def)
qed

lemma parse_signature_hex_tokens:
  "str_split s = map hex02X bs \<Longrightarrow> parse_signature s = Inr bs"
  by (simp add: parse_signature_def parse_loop_hex bytes_of_uint)

lemma parse_signature_hex_text: "parse_signature (hex_text bs) = Inr bs"
  by (rule parse_signature_hex_tokens [OF str_split_hex_text])

lemma split_block:
  "split_from [] ((hex_text wb @ '' '' @ hex_text hb @ '' '') @ rest)
     = map hex02X (wb @ hb) @ split_from [] rest"
  using split_join_then [OF good_tokens_hex, of wb "hex_text hb @ '' '' @ rest"]
        split_join_then [OF good_tokens_hex, of hb rest]
  by (simp add: hex_text_def)

lemma split_blocks:
  "split_from [] (concat (replicate k (hex_text wb @ '' '' @ hex_text hb @ '' '')) @ rest)
     = map hex02X (concat (replicate k (wb @ hb))) @ split_from [] rest"
proof (induction k)
  case 0
  then show ?case by simp
next
  case (Suc k)
  have "split_from [] (concat (replicate (Suc k) (hex_text wb @ '' '' @ hex_text hb @ '' '')) @ rest)
      = split_from [] ((hex_text wb @ '' '' @ hex_text hb @ '' '') @ (concat (replicate k (hex_text wb @ '' '' @ hex_text hb @ '' '')) @ rest))"
    by simp
  also have "\<dots> = map hex02X (wb @ hb) @ split_from [] (concat (replicate k (hex_text wb @ '' '' @ hex_text hb @ '' '')) @ rest)"
    by (rule split_block)
  also have "\<dots> = map hex02X (wb @ hb) @ (map hex02X (concat (replicate k (wb @ hb))) @ split_from [] rest)"
    by (simp only: Suc.IH)
  also have "\<dots> = map hex02X (concat (replicate (Suc k) (wb @ hb))) @ split_from [] rest"
    by simp
  finally show ?case .
qed

lemma str_split_replace_pattern:
  "str_split (build_replace_pattern (hex_text wb) (hex_text hb))
     = map hex02X (concat (replicate 15 (wb @ hb)))"
  using split_blocks [of 15 wb hb "[]"]
  by (simp add: str_split_def build_replace_pattern_def)

lemma parse_replace_pattern:
  "parse_signature (build_replace_pattern (hex_text wb) (hex_text hb))
     = Inr (concat (replicate 15 (wb @ hb)))"
  by (rule parse_signature_hex_tokens [OF str_split_replace_pattern])

lemma length_concat_replicate: "length (concat (replicate k xs)) = k * length xs"
  by (induction k) simp_all

section \<open>The arithmetic of patch\<close>

lemma patch_fields_error: "patch_fields width0 height0 dw dh = Inl e \<Longrightarrow> e = OverflowError"
  by (auto simp: patch_fields_def to_bytes4_def int_truediv2_def Let_def
           split: prod.splits sum.splits if_splits)

lemma patch_fields_ok:
  assumes eff: "effective_resolution width0 height0 dw dh = (w, h)"
    and w: "0 \<le> w" "w < 2 ^ 32" and h: "0 \<le> h" "h < 2 ^ 28"
    and d: "w \<le> dw + 1" "dw - w < 2 ^ 33"
  shows "\<exists>sb wb hb ob.
           to_bytes4 (push_bit 4 h) = Inr sb \<and> to_bytes4 w = Inr wb \<and> to_bytes4 h = Inr hb \<and>
           to_bytes4 (if w \<le> dw then (dw - w) div 2 else 0) = Inr ob \<and>
           patch_fields width0 height0 dw dh =
             Inr \<lparr>f_special = hex_text sb, f_width = hex_text wb,
                  f_height = hex_text hb, f_offset = hex_text ob\<rparr>"
proof -
  define off where "off = (if w \<le> dw then (dw - w) div 2 else 0)"
  have o: "int_truediv2 (dw - w) = Inr off"
    using d by (auto simp: int_truediv2_def off_def)
  have "0 \<le> off" "off < 2 ^ 32" using d by (auto simp: off_def)
  then obtain ob where ob: "to_bytes4 off = Inr ob" by (auto simp: to_bytes4_def)
  obtain wb where wb: "to_bytes4 w = Inr wb" using w by (auto simp: to_bytes4_def)
  obtain hb where hb: "to_bytes4 h = Inr hb" using h by (auto simp: to_bytes4_def)
  have "0 \<le> push_bit 4 h" "push_bit 4 h < 2 ^ 32" using h by (simp_all add: push_bit_eq_mult)
  then obtain sb where sb: "to_bytes4 (push_bit 4 h) = Inr sb" by (auto simp: to_bytes4_def)
  have "patch_fields width0 height0 dw dh =
             Inr \<lparr>f_special = hex_text sb, f_width = hex_text wb,
                  f_height = hex_text hb, f_offset = hex_text ob\<rparr>"
    by (simp add: patch_fields_def eff o ob wb hb sb)
  with sb wb hb ob show ?thesis unfolding off_def by blast
qed

lemma patch_fields_negative_offset:
  assumes eff: "effective_resolution width0 height0 dw dh = (w, h)" and d: "dw + 1 < w"
  shows "patch_fields width0 height0 dw dh = Inl OverflowError"
proof (cases "patch_fields width0 height0 dw dh")
  case (Inl e)
  then show ?thesis using patch_fields_error by simp
next
  case (Inr f)
  then obtain off ob where "int_truediv2 (dw - w) = Inr off" "to_bytes4 off = Inr ob"
    by (auto simp: patch_fields_def eff split: sum.splits)
  then have False using d
    by (auto simp: int_truediv2_def to_bytes4_def split: if_splits)
  then show ?thesis ..
qed

lemma hex_digit_upper: "n < 16 \<Longrightarrow> hex_digit n \<in> set ''0123456789ABCDEF''"
  unfolding hex_digit_def by (rule nth_mem) simp

lemma set_str_join: "set (str_join sep ts) \<subseteq> set sep \<union> \<Union> (set ` set ts)"
  by (induction sep ts rule: str_join.induct) auto

lemma hex_text_chars: "set (hex_text bs) \<subseteq> set ''0123456789ABCDEF ''"
proof -
  define U where "U = set ''0123456789ABCDEF''"
  have sp: "set ''0123456789ABCDEF '' = insert CHR '' '' U"
    unfolding U_def by (simp add: insert_commute)
  have "set (hex02X b) \<subseteq> U" for b
  proof -
    have h: "unat b div 16 < 16" using unsigned_less [of b, where 'a = nat] by simp
    have l: "unat b mod 16 < 16" by simp
    show ?thesis using hex_digit_upper [OF h] hex_digit_upper [OF l]
      unfolding hex02X_def U_def [symmetric] by simp
  qed
  then have "\<Union> (set ` set (map hex02X bs)) \<subseteq> U"
    by auto
  moreover have "set (hex_text bs) \<subseteq> insert CHR '' '' (\<Union> (set ` set (map hex02X bs)))"
    using set_str_join [of "'' ''" "map hex02X bs"] unfolding hex_text_def by simp
  ultimately have "set (hex_text bs) \<subseteq> insert CHR '' '' U"
    by blast
  then show ?thesis unfolding sp .
qed



text \<open>
  C10: whenever the zero sentinel applies, the offset computed from the desktop width and
  the substituted width is exactly 0, and for a desktop resolution that serialises the
  offset field reads \<^verbatim>\<open>00 00 00 00\<close>.
\<close>

theorem zero_sentinel_offset_zero:
  assumes "width0 = 0 \<or> height0 = 0"
  shows "int_truediv2 (dw - fst (effective_resolution width0 height0 dw dh)) = Inr 0 \<and>
         (0 \<le> dw \<and> dw < 2 ^ 32 \<and> 0 \<le> dh \<and> dh < 2 ^ 28 \<longrightarrow>
            (\<exists>f. patch_fields width0 height0 dw dh = Inr f \<and> f_offset f = ''00 00 00 00''))"
proof -
  have eff: "effective_resolution width0 height0 dw dh = (dw, dh)"
    using assms by (auto simp: effective_resolution_def)
  have z: "to_bytes4 0 = Inr [0, 0, 0, 0]" by (simp add: to_bytes4_def)
  have t: "hex_text [0, 0, 0, 0] = ''00 00 00 00''"
    by (simp add: hex_text_def hex02X_def hex_digit_def)
  have "\<exists>f. patch_fields width0 height0 dw dh = Inr f \<and> f_offset f = ''00 00 00 00''"
    if "0 \<le> dw" "dw < 2 ^ 32" "0 \<le> dh" "dh < 2 ^ 28"
    using patch_fields_ok [OF eff that] by (auto simp: z t)
  then show ?thesis by (simp add: eff int_truediv2_def)
qed

text \<open>C10 at a configured width of 0 on a 1920 by 1080 desktop.\<close>

theorem zero_sentinel_offset_zero_witness:
  "int_truediv2 (1920 - fst (effective_resolution 0 720 1920 1080)) = Inr 0 \<and>
   (\<exists>f. patch_fields 0 720 1920 1080 = Inr f \<and> f_offset f = ''00 00 00 00'')"
  using zero_sentinel_offset_zero [of 0 720 1920 1080] by simp

text \<open>
  C1 as stated fails: for a desktop width of 1920 and a width of 2560 the offset is
  \<open>- 320\<close>, its serialisation with \<^verbatim>\<open>signed=False\<close> raises \<open>OverflowError\<close>, and
  \<open>patch\<close> produces no bytes at all; nothing wraps around.
\<close>

theorem offset_negative_counterexample:
  "effective_resolution 2560 1440 1920 1080 = (2560, 1440) \<and>
   int_truediv2 (1920 - 2560) = Inr (- 320) \<and>
   to_bytes4 (- 320) = Inl OverflowError \<and>
   patch_fields 2560 1440 1920 1080 = Inl OverflowError"
  by (simp add: effective_resolution_def int_truediv2_def to_bytes4_def patch_fields_def)

text \<open>
  C1, amended: when the effective width \<open>w\<close> is in \<open>0 \<le> w < 2 ^ 32\<close>, the effective
  height \<open>h\<close> is in \<open>0 \<le> h < 2 ^ 28\<close> (so that \<open>h << 4\<close>, serialised before the
  offset, fits four bytes) and \<open>0 \<le> dw - w < 2 ^ 33\<close>, the offset field is the
  hexadecimal text of four bytes that are the little-endian encoding of
  \<open>floor ((dw - w) / 2)\<close>. When \<open>w > dw + 1\<close> the offset is negative and nothing is
  encoded or wrapped: the arithmetic ends in an \<open>OverflowError\<close>, and \<open>patch\<close>, run with
  that desktop resolution, raises it after printing the two configured values, with every
  library file and the record file as they were.
\<close>

theorem offset_bytes_when_representable:
  assumes "effective_resolution width0 height0 dw dh = (w, h)"
  shows "(0 \<le> w \<and> w < 2 ^ 32 \<and> 0 \<le> h \<and> h < 2 ^ 28 \<and> w \<le> dw \<and> dw - w < 2 ^ 33 \<longrightarrow>
            (\<exists>f ob. patch_fields width0 height0 dw dh = Inr f \<and> f_offset f = hex_text ob \<and>
                     length ob = 4 \<and> le_value ob = (dw - w) div 2)) \<and>
         (dw + 1 < w \<longrightarrow>
            patch_fields width0 height0 dw dh = Inl OverflowError \<and>
            (get_desktop_resolution monitors = Inr (dw, dh) \<longrightarrow>
               patch (Some (width0, height0)) monitors w0
                 = (Some OverflowError,
                    w0\<lparr>out := out w0 @ [YamlWidth width0, YamlHeight height0]\<rparr>) \<and>
               dlls (snd (patch (Some (width0, height0)) monitors w0)) = dlls w0 \<and>
               patch_txt (snd (patch (Some (width0, height0)) monitors w0)) = patch_txt w0))"
proof (intro conjI impI)
  assume r: "0 \<le> w \<and> w < 2 ^ 32 \<and> 0 \<le> h \<and> h < 2 ^ 28 \<and> w \<le> dw \<and> dw - w < 2 ^ 33"
  then have "w \<le> dw + 1" by simp
  with r obtain sb wb hb ob where
      ob: "to_bytes4 (if w \<le> dw then (dw - w) div 2 else 0) = Inr ob"
    and pf: "patch_fields width0 height0 dw dh =
             Inr \<lparr>f_special = hex_text sb, f_width = hex_text wb,
                  f_height = hex_text hb, f_offset = hex_text ob\<rparr>"
    using patch_fields_ok [OF assms] by blast
  from ob r have "to_bytes4 ((dw - w) div 2) = Inr ob" by simp
  then have "length ob = 4 \<and> le_value ob = (dw - w) div 2" by (rule to_bytes4_le_value)
  with pf show "\<exists>f ob. patch_fields width0 height0 dw dh = Inr f \<and> f_offset f = hex_text ob \<and>
                     length ob = 4 \<and> le_value ob = (dw - w) div 2"
    by (intro exI [of _ "\<lparr>f_special = hex_text sb, f_width = hex_text wb,
                  f_height = hex_text hb, f_offset = hex_text ob\<rparr>"] exI [of _ ob]) simp
next
  assume "dw + 1 < w"
  then show "patch_fields width0 height0 dw dh = Inl OverflowError"
    by (rule patch_fields_negative_offset [OF assms])
next
  assume d: "dw + 1 < w" and mon: "get_desktop_resolution monitors = Inr (dw, dh)"
  have pf: "patch_fields width0 height0 dw dh = Inl OverflowError"
    using d by (rule patch_fields_negative_offset [OF assms])
  show p: "patch (Some (width0, height0)) monitors w0
          = (Some OverflowError, w0\<lparr>out := out w0 @ [YamlWidth width0, YamlHeight height0]\<rparr>)"
    by (simp add: patch_def mon pf print_def)
  show "dlls (snd (patch (Some (width0, height0)) monitors w0)) = dlls w0"
    by (simp add: p)
  show "patch_txt (snd (patch (Some (width0, height0)) monitors w0)) = patch_txt w0"
    by (simp add: p)
qed

text \<open>
  The amended C1 at widths 1280 and 2560 on a desktop 1920 wide, the second also as a
  whole run of \<open>patch\<close>.
\<close>

theorem offset_bytes_when_representable_witness:
  "(\<exists>f ob. patch_fields 1280 720 1920 1080 = Inr f \<and> f_offset f = hex_text ob \<and>
            length ob = 4 \<and> le_value ob = 320) \<and>
   patch_fields 2560 1440 1920 1080 = Inl OverflowError \<and>
   patch (Some (2560, 1440)) [\<lparr>m_width = 1920, m_height = 1080, is_primary = True\<rparr>]
     \<lparr>dlls = [''../hackGU_title.dll'' \<mapsto> [1, 2, 3]], patch_txt = None, out = []\<rparr>
     = (Some OverflowError,
        \<lparr>dlls = [''../hackGU_title.dll'' \<mapsto> [1, 2, 3]], patch_txt = None,
         out = [YamlWidth 2560, YamlHeight 1440]\<rparr>)"
proof -
  let ?m = "[\<lparr>m_width = 1920, m_height = 1080, is_primary = True\<rparr>]"
  let ?w = "\<lparr>dlls = [''../hackGU_title.dll'' \<mapsto> [1, 2, 3 :: byte]], patch_txt = None, out = []\<rparr>"
  have a: "effective_resolution 1280 720 1920 1080 = (1280, 720)"
    and b: "effective_resolution 2560 1440 1920 1080 = (2560, 1440)"
    by (simp_all add: effective_resolution_def)
  have mon: "get_desktop_resolution ?m = Inr (1920, 1080)"
    by (simp add: get_desktop_resolution_def)
  have 1: "\<exists>f ob. patch_fields 1280 720 1920 1080 = Inr f \<and> f_offset f = hex_text ob \<and>
            length ob = 4 \<and> le_value ob = 320"
    using offset_bytes_when_representable [OF a] by simp
  have 2: "patch_fields 2560 1440 1920 1080 = Inl OverflowError"
    and 3: "patch (Some (2560, 1440)) ?m ?w
              = (Some OverflowError, ?w\<lparr>out := out ?w @ [YamlWidth 2560, YamlHeight 1440]\<rparr>)"
    using offset_bytes_when_representable [OF b, of ?m ?w] mon by simp_all
  show ?thesis using 1 2 3 by simp
qed

lemma special_1080: "map_sum id hex_text (to_bytes4 (push_bit 4 1080)) = Inr ''80 43 00 00''"
  by code_simp


lemma default_search_pattern_length:
  "map_sum id length (parse_signature default_search_pattern) = Inr 120"
  by code_simp

text \<open>
  C8: the special field is the uppercase hexadecimal text of four bytes that are the
  little-endian encoding of the effective height shifted left by 4 bits; for a height of
  1080 the value is 17280 and the text is \<^verbatim>\<open>80 43 00 00\<close>.
\<close>

theorem special_value_is_shifted_height:
  assumes eff: "effective_resolution width0 height0 dw dh = (w, h)"
    and w: "0 \<le> w" "w < 2 ^ 32" and h: "0 \<le> h" "h < 2 ^ 28"
    and d: "w \<le> dw + 1" "dw - w < 2 ^ 33"
  shows "\<exists>f sb. patch_fields width0 height0 dw dh = Inr f \<and> f_special f = hex_text sb \<and>
           length sb = 4 \<and> le_value sb = push_bit 4 h \<and>
           parse_signature (f_special f) = Inr sb \<and>
           set (f_special f) \<subseteq> set ''0123456789ABCDEF '' \<and>
           (h = 1080 \<longrightarrow> push_bit 4 h = 17280 \<and> f_special f = ''80 43 00 00'')"
proof -
  obtain sb wb hb ob where sb: "to_bytes4 (push_bit 4 h) = Inr sb"
    and pf: "patch_fields width0 height0 dw dh =
             Inr \<lparr>f_special = hex_text sb, f_width = hex_text wb,
                  f_height = hex_text hb, f_offset = hex_text ob\<rparr>"
    using patch_fields_ok [OF eff w h d] by blast
  let ?f = "\<lparr>f_special = hex_text sb, f_width = hex_text wb,
                  f_height = hex_text hb, f_offset = hex_text ob\<rparr>"
  have 1: "length sb = 4 \<and> le_value sb = push_bit 4 h"
    using sb by (rule to_bytes4_le_value)
  have 2: "parse_signature (f_special ?f) = Inr sb"
    by (simp add: parse_signature_hex_text)
  have 3: "set (f_special ?f) \<subseteq> set ''0123456789ABCDEF ''"
    using hex_text_chars [of sb] by simp
  have 4: "push_bit 4 h = 17280 \<and> f_special ?f = ''80 43 00 00''" if "h = 1080"
    using special_1080 sb unfolding that by simp
  show ?thesis
    using pf 1 2 3 4 by (intro exI [of _ ?f] exI [of _ sb]) simp
qed

text \<open>C8 at 1920 by 1080.\<close>

theorem special_value_is_shifted_height_witness:
  "\<exists>f. patch_fields 1920 1080 1920 1080 = Inr f \<and> f_special f = ''80 43 00 00''"
proof -
  have a: "effective_resolution 1920 1080 1920 1080 = (1920, 1080)"
    by (simp add: effective_resolution_def)
  show ?thesis
    using special_value_is_shifted_height [OF a] by auto
qed

text \<open>
  C6: the default search pattern parses to 120 bytes, and for every 32-bit width and
  height the replacement pattern, 15 repetitions of the two rendered values, parses to
  the 15 repetitions of their 8 bytes, 120 bytes as well.
\<close>

theorem search_and_replace_lengths:
  assumes "0 \<le> w" "w < 2 ^ 32" "0 \<le> h" "h < 2 ^ 32"
  shows "\<exists>sb wb hb rb.
           parse_signature default_search_pattern = Inr sb \<and> length sb = 120 \<and>
           to_bytes4 w = Inr wb \<and> to_bytes4 h = Inr hb \<and>
           parse_signature (build_replace_pattern (hex_text wb) (hex_text hb)) = Inr rb \<and>
           rb = concat (replicate 15 (wb @ hb)) \<and>
           length rb = 120 \<and> length rb = length sb"
proof -
  obtain sb where sb: "parse_signature default_search_pattern = Inr sb" "length sb = 120"
    using default_search_pattern_length
    by (cases "parse_signature default_search_pattern") simp_all
  obtain wb where wb: "to_bytes4 w = Inr wb" using assms by (auto simp: to_bytes4_def)
  obtain hb where hb: "to_bytes4 h = Inr hb" using assms by (auto simp: to_bytes4_def)
  have l: "length wb = 4" "length hb = 4"
    using to_bytes4_le_value [OF wb] to_bytes4_le_value [OF hb] by simp_all
  have "length (concat (replicate 15 (wb @ hb))) = 120"
    by (simp add: length_concat_replicate l)
  then show ?thesis
    using sb wb hb parse_replace_pattern [of wb hb] by simp
qed

text \<open>C6 at 1280 by 720.\<close>

theorem search_and_replace_lengths_witness:
  "\<exists>sb rb. parse_signature default_search_pattern = Inr sb \<and>
     parse_signature (build_replace_pattern ''00 05 00 00'' ''D0 02 00 00'') = Inr rb \<and>
     length rb = length sb"
proof -
  have w: "to_bytes4 1280 = Inr [0x00, 0x05, 0x00, 0x00]"
    and h: "to_bytes4 720 = Inr [0xD0, 0x02, 0x00, 0x00]"
    by (simp_all add: to_bytes4_def)
  have t: "hex_text [0x00, 0x05, 0x00, 0x00] = ''00 05 00 00''"
          "hex_text [0xD0, 0x02, 0x00, 0x00] = ''D0 02 00 00''"
    by (simp_all add: hex_text_def hex02X_def hex_digit_def)
  show ?thesis
    using search_and_replace_lengths [of 1280 720] by (auto simp: w h t)
qed

section \<open>Which signatures parse\<close>

lemma hex_chars_digit_value:
  "list_all (\<lambda>c. digit_value c = Some (nat (hex_char_value c)) \<and>
                 0 \<le> hex_char_value c \<and> hex_char_value c < 16) hex_chars"
  by code_simp

lemma hex_char_digit_value:
  assumes "c \<in> set hex_chars"
  shows "digit_value c = Some (nat (hex_char_value c))" "0 \<le> hex_char_value c" "hex_char_value c < 16"
  using hex_chars_digit_value assms unfolding list_all_iff by blast+

lemma int16_byte_token:
  assumes "is_byte_token t"
  shows "int16 t = Inr (16 * hex_char_value (t ! 0) + hex_char_value (t ! 1))"
    and "\<not> is_wildcard t"
proof -
  from assms obtain a b where t: "t = [a, b]" and a: "a \<in> set hex_chars" and b: "b \<in> set hex_chars"
    by (cases t rule: list.exhaust; cases "tl t") (auto simp: is_byte_token_def)
  note da = hex_char_digit_value [OF a] and db = hex_char_digit_value [OF b]
  have "int16 [a, b] = Inr (16 * int (nat (hex_char_value a)) + int (nat (hex_char_value b)))"
    by (rule int16_two_digits [OF da(1) db(1)])
  then show "int16 t = Inr (16 * hex_char_value (t ! 0) + hex_char_value (t ! 1))"
    using da(2) db(2) by (simp add: t)
  show "\<not> is_wildcard t"
    using digit_value_not_special(6) [OF da(1)] by (auto simp: t is_wildcard_def)
qed

lemma int16_error: "int16 t = Inl e \<Longrightarrow> e = ValueError"
  by (auto simp: int16_def Let_def split: list.splits if_splits option.splits prod.splits)

lemma token_int_error: "token_int t = Inl e \<Longrightarrow> e = ValueError"
  by (auto simp: token_int_def int16_error split: if_splits)

lemma parse_loop_token_int:
  "parse_loop acc (t # ts) = (case token_int t of Inl e \<Rightarrow> Inl e | Inr v \<Rightarrow> parse_loop (acc @ [v]) ts)"
  by (simp add: token_int_def)

lemma parse_loop_Inr:
  "list_all (\<lambda>t. \<not> isl (token_int t)) ts \<Longrightarrow>
     parse_loop acc ts = Inr (acc @ map (\<lambda>t. projr (token_int t)) ts)"
proof (induction ts arbitrary: acc)
  case Nil
  then show ?case by simp
next
  case (Cons t ts)
  then obtain v where v: "token_int t = Inr v" by (cases "token_int t") auto
  show ?case using Cons by (simp add: parse_loop_token_int v del: parse_loop.simps)
qed

lemma parse_loop_Inl:
  "list_ex (\<lambda>t. isl (token_int t)) ts \<Longrightarrow> parse_loop acc ts = Inl ValueError"
proof (induction ts arbitrary: acc)
  case Nil
  then show ?case by simp
next
  case (Cons t ts)
  show ?case
  proof (cases "token_int t")
    case (Inl e)
    then show ?thesis using token_int_error [OF Inl] by (simp add: parse_loop_token_int del: parse_loop.simps)
  next
    case (Inr v)
    then show ?thesis using Cons by (simp add: parse_loop_token_int del: parse_loop.simps)
  qed
qed

lemma token_fails_isl: "isl (token_int t) \<Longrightarrow> token_fails t"
  by (cases "token_int t") (simp_all add: token_fails_def)

lemma token_fails_Inr: "token_int t = Inr v \<Longrightarrow> token_fails t = (v < 0 \<or> 256 \<le> v)"
  by (simp add: token_fails_def)

lemma parse_signature_cases:
  "parse_signature s =
     (if list_ex token_fails (str_split s) then Inl ValueError
      else Inr (map (\<lambda>t. word_of_int (projr (token_int t))) (str_split s)))"
proof (cases "list_ex (\<lambda>t. isl (token_int t)) (str_split s)")
  case True
  then have "list_ex token_fails (str_split s)"
    unfolding list_ex_iff using token_fails_isl by blast
  then show ?thesis
    using parse_loop_Inl [OF True] by (simp add: parse_signature_def)
next
  case False
  then have all: "list_all (\<lambda>t. \<not> isl (token_int t)) (str_split s)"
    by (simp add: list_all_iff list_ex_iff)
  have fails: "token_fails t = (projr (token_int t) < 0 \<or> 256 \<le> projr (token_int t))"
    if "t \<in> set (str_split s)" for t
  proof -
    from all that obtain v where "token_int t = Inr v"
      unfolding list_all_iff by (cases "token_int t") auto
    then show ?thesis by (simp add: token_fails_Inr)
  qed
  have "list_all (\<lambda>x. 0 \<le> x \<and> x < 256) (map (\<lambda>t. projr (token_int t)) (str_split s))
          = (\<not> list_ex token_fails (str_split s))"
    using fails by (auto simp: list_all_iff list_ex_iff)
  then show ?thesis
    using parse_loop_Inr [OF all, of "[]"] by (simp add: parse_signature_def bytes_of_def o_def)
qed

lemma valid_token:
  assumes "is_byte_token t \<or> is_wildcard t"
  shows "\<not> token_fails t" "word_of_int (projr (token_int t)) = token_value t"
proof -
  consider (w) "is_wildcard t" | (b) "is_byte_token t" "\<not> is_wildcard t"
    using assms int16_byte_token(2) by blast
  then have "\<not> token_fails t \<and> word_of_int (projr (token_int t)) = token_value t"
  proof cases
    case w
    then have "token_int t = Inr 0" by (simp add: token_int_def is_wildcard_def)
    then show ?thesis using w by (simp add: token_fails_def token_value_def)
  next
    case b
    from b(1) obtain x y where t: "t = [x, y]" and x: "x \<in> set hex_chars" and y: "y \<in> set hex_chars"
      by (cases t rule: list.exhaust; cases "tl t") (auto simp: is_byte_token_def)
    have ti: "token_int [x, y] = Inr (16 * hex_char_value x + hex_char_value y)"
    proof -
      have nw: "\<not> ([x, y] = ''?'' \<or> [x, y] = ''??'')"
        using b(2) unfolding is_wildcard_def t .
      have "int16 [x, y] = Inr (16 * hex_char_value x + hex_char_value y)"
        using int16_byte_token(1) [OF b(1)] by (simp add: t)
      then show ?thesis
        unfolding token_int_def if_not_P [OF nw] .
    qed
    have "0 \<le> 16 * hex_char_value x + hex_char_value y" "16 * hex_char_value x + hex_char_value y < 256"
      using hex_char_digit_value(2,3) [OF x] hex_char_digit_value(2,3) [OF y] by simp_all
    then show ?thesis using b(2) by (simp add: ti token_fails_def token_value_def t)
  qed
  then show "\<not> token_fails t" "word_of_int (projr (token_int t)) = token_value t" by simp_all
qed

lemma parse_signature_valid_tokens:
  assumes "list_all (\<lambda>t. is_byte_token t \<or> is_wildcard t) (str_split s)"
  shows "parse_signature s = Inr (map token_value (str_split s))"
proof -
  have "\<not> list_ex token_fails (str_split s)"
    using assms valid_token(1) unfolding list_all_iff list_ex_iff by blast
  moreover have "map (\<lambda>t. word_of_int (projr (token_int t))) (str_split s) = map token_value (str_split s)"
    using assms valid_token(2) unfolding list_all_iff by (intro map_cong) auto
  ultimately show ?thesis by (simp add: parse_signature_cases)
qed

text \<open>
  C4: on every signature whose tokens are each a two-hex-digit byte or a wildcard marker,
  \<open>parse_signature\<close> returns the bytes of the tokens in order, a literal as its numeric
  value and a wildcard as \<open>0x00\<close>; \<^verbatim>\<open>DE AD ? 10\<close> parses to \<open>[0xDE, 0xAD, 0x00, 0x10]\<close>.
\<close>

theorem parse_signature_literals_and_wildcards:
  "(list_all (\<lambda>t. is_byte_token t \<or> is_wildcard t) (str_split s) \<longrightarrow>
      parse_signature s = Inr (map token_value (str_split s))) \<and>
   parse_signature ''DE AD ? 10'' = Inr [0xDE, 0xAD, 0x00, 0x10]"
proof
  show "list_all (\<lambda>t. is_byte_token t \<or> is_wildcard t) (str_split s) \<longrightarrow>
      parse_signature s = Inr (map token_value (str_split s))"
    using parse_signature_valid_tokens by blast
  show "parse_signature ''DE AD ? 10'' = Inr [0xDE, 0xAD, 0x00, 0x10]"
    by code_simp
qed

text \<open>C4 at a signature with lower case, a double wildcard and repeated blanks.\<close>

theorem parse_signature_literals_and_wildcards_witness:
  "list_all (\<lambda>t. is_byte_token t \<or> is_wildcard t) (str_split ''de AD  ??  10 '') \<and>
   parse_signature ''de AD  ??  10 '' = Inr [0xDE, 0xAD, 0x00, 0x10]"
proof -
  have v: "list_all (\<lambda>t. is_byte_token t \<or> is_wildcard t) (str_split ''de AD  ??  10 '')"
    by code_simp
  have m: "map token_value (str_split ''de AD  ??  10 '') = [0xDE, 0xAD, 0x00, 0x10]"
    by code_simp
  show ?thesis
    using parse_signature_literals_and_wildcards [of "''de AD  ??  10 ''"] v m by simp
qed

text \<open>
  C9 as stated fails: \<^verbatim>\<open>F\<close> and \<^verbatim>\<open>0x1F\<close> are neither two-hex-digit bytes nor wildcard
  markers, yet \<^verbatim>\<open>int(token, 16)\<close> accepts both and \<open>parse_signature\<close> returns two bytes.
\<close>

theorem parse_signature_accepts_other_tokens_counterexample:
  "str_split ''F 0x1F'' = [''F'', ''0x1F''] \<and>
   \<not> is_byte_token ''F'' \<and> \<not> is_wildcard ''F'' \<and>
   \<not> is_byte_token ''0x1F'' \<and> \<not> is_wildcard ''0x1F'' \<and>
   parse_signature ''F 0x1F'' = Inr [0x0F, 0x1F]"
  by code_simp

text \<open>
  C9, amended: \<open>parse_signature\<close> fails exactly on the signatures that hold a token which
  is not a wildcard marker and which \<^verbatim>\<open>int(token, 16)\<close> rejects or maps outside
  \<open>range(256)\<close>; the failure is a \<open>ValueError\<close>; and it succeeds on every signature whose
  tokens are all two-hex-digit bytes or wildcard markers.
\<close>

theorem parse_signature_fails_iff:
  "((\<exists>e. parse_signature s = Inl e) \<longleftrightarrow> list_ex token_fails (str_split s)) \<and>
   (\<forall>e. parse_signature s = Inl e \<longrightarrow> e = ValueError) \<and>
   (list_all (\<lambda>t. is_byte_token t \<or> is_wildcard t) (str_split s) \<longrightarrow>
      (\<exists>bs. parse_signature s = Inr bs))"
proof (intro conjI)
  show "(\<exists>e. parse_signature s = Inl e) \<longleftrightarrow> list_ex token_fails (str_split s)"
    by (simp add: parse_signature_cases)
  show "\<forall>e. parse_signature s = Inl e \<longrightarrow> e = ValueError"
    by (simp add: parse_signature_cases)
  show "list_all (\<lambda>t. is_byte_token t \<or> is_wildcard t) (str_split s) \<longrightarrow>
      (\<exists>bs. parse_signature s = Inr bs)"
    using parse_signature_valid_tokens by blast
qed

text \<open>The amended C9 at a rejected token, at a value above 255 and at a valid signature.\<close>

theorem parse_signature_fails_iff_witness:
  "list_ex token_fails (str_split ''DE XY 10'') \<and> parse_signature ''DE XY 10'' = Inl ValueError \<and>
   list_ex token_fails (str_split ''DE 100'') \<and> parse_signature ''DE 100'' = Inl ValueError \<and>
   list_all (\<lambda>t. is_byte_token t \<or> is_wildcard t) (str_split ''DE AD ? 10'') \<and>
   (\<exists>bs. parse_signature ''DE AD ? 10'' = Inr bs)"
proof -
  have a: "list_ex token_fails (str_split ''DE XY 10'')" by code_simp
  have b: "list_ex token_fails (str_split ''DE 100'')" by code_simp
  have c: "list_all (\<lambda>t. is_byte_token t \<or> is_wildcard t) (str_split ''DE AD ? 10'')"
    by code_simp
  show ?thesis
    using parse_signature_fails_iff [of "''DE XY 10''"] parse_signature_fails_iff [of "''DE 100''"]
      parse_signature_fails_iff [of "''DE AD ? 10''"] a b c
    by blast
qed

section \<open>Searching and overwriting\<close>

lemma split_from_dropWhile: "split_from [] (dropWhile isspace s) = split_from [] s"
  by (induction s) simp_all

lemma split_from_spaces: "list_all isspace b \<Longrightarrow> split_from cur b = (if cur = [] then [] else [cur])"
  by (induction b arbitrary: cur) simp_all

lemma split_from_append_spaces:
  "list_all isspace b \<Longrightarrow> split_from cur (a @ b) = split_from cur a"
proof (induction a arbitrary: cur)
  case Nil
  then show ?case by (simp add: split_from_spaces)
next
  case (Cons c a)
  then show ?case by (simp add: split_from_spaces)
qed

lemma rstrip_decompose:
  "s = rev (dropWhile P (rev s)) @ rev (takeWhile P (rev s))"
proof -
  have "rev s = takeWhile P (rev s) @ dropWhile P (rev s)" by simp
  then have "rev (rev s) = rev (takeWhile P (rev s) @ dropWhile P (rev s))" by (rule arg_cong)
  then show ?thesis by (simp only: rev_rev_ident rev_append)
qed

lemma split_from_rstrip: "split_from cur (rev (dropWhile isspace (rev s))) = split_from cur s"
proof -
  have "list_all isspace (rev (takeWhile isspace (rev s)))"
    by (simp add: list_all_iff) (meson set_takeWhileD)
  from split_from_append_spaces [OF this, of cur "rev (dropWhile isspace (rev s))"]
  show ?thesis using rstrip_decompose [of s isspace] by simp
qed

lemma str_split_strip: "str_split (str_strip s) = str_split s"
  by (simp add: str_split_def str_strip_def split_from_rstrip split_from_dropWhile)

lemma parse_signature_strip: "parse_signature (str_strip s) = parse_signature s"
  by (simp add: parse_signature_def str_split_strip)

lemma occurs_at_0: "occurs_at sub data 0 = (take (length sub) data = sub)"
  by (simp add: occurs_at_def)

lemma occurs_at_Suc: "occurs_at sub (d # ds) (Suc j) = occurs_at sub ds j"
  by (simp add: occurs_at_def)

lemma occurs_at_Nil: "occurs_at sub [] j = (sub = [] \<and> j = 0)"
  by (auto simp: occurs_at_def)

lemma find_from_Some:
  "find_from i sub data = Some k \<Longrightarrow>
     i \<le> k \<and> occurs_at sub data (k - i) \<and> (\<forall>j < k - i. \<not> occurs_at sub data j)"
proof (induction data arbitrary: i)
  case Nil
  then show ?case by (auto simp: occurs_at_Nil split: if_splits)
next
  case (Cons d ds)
  show ?case
  proof (cases "take (length sub) (d # ds) = sub")
    case True
    with Cons.prems have "k = i" by simp
    then show ?thesis using True by (simp add: occurs_at_0)
  next
    case False
    with Cons.prems have "find_from (Suc i) sub ds = Some k" by simp
    from Cons.IH [OF this] have ik: "Suc i \<le> k" and occ: "occurs_at sub ds (k - Suc i)"
      and least: "\<forall>j < k - Suc i. \<not> occurs_at sub ds j" by simp_all
    from ik have e: "k - i = Suc (k - Suc i)" by simp
    have "\<not> occurs_at sub (d # ds) j" if "j < k - i" for j
    proof (cases j)
      case 0
      then show ?thesis using False by (simp add: occurs_at_0)
    next
      case (Suc j')
      then show ?thesis using least that e by (simp add: occurs_at_Suc)
    qed
    then show ?thesis using ik occ by (simp add: e occurs_at_Suc)
  qed
qed

lemma find_from_None: "find_from i sub data = None \<Longrightarrow> \<not> occurs_at sub data j"
proof (induction data arbitrary: i j)
  case Nil
  then show ?case by (auto simp: occurs_at_Nil split: if_splits)
next
  case (Cons d ds)
  then have n0: "take (length sub) (d # ds) \<noteq> sub" and r: "find_from (Suc i) sub ds = None"
    by (auto split: if_splits)
  show ?case
  proof (cases j)
    case 0
    then show ?thesis using n0 by (simp add: occurs_at_0)
  next
    case (Suc j')
    then show ?thesis using Cons.IH [OF r] by (simp add: occurs_at_Suc)
  qed
qed

lemma bytes_find_first:
  assumes "occurs_at sub data i"
  shows "\<exists>off. bytes_find data sub = Some off \<and> off \<le> i \<and> occurs_at sub data off \<and>
               (\<forall>j < off. \<not> occurs_at sub data j)"
proof (cases "bytes_find data sub")
  case None
  then show ?thesis using find_from_None [of 0 sub data i] assms by (simp add: bytes_find_def)
next
  case (Some off)
  then have f: "find_from 0 sub data = Some off" by (simp add: bytes_find_def)
  from find_from_Some [OF f] have occ: "occurs_at sub data off"
    and least: "\<forall>j < off. \<not> occurs_at sub data j" by simp_all
  from least assms have "off \<le> i" by (meson not_le)
  then show ?thesis using Some occ least by simp
qed

lemma bytes_find_absent:
  assumes "\<forall>i. \<not> occurs_at sub data i"
  shows "bytes_find data sub = None"
proof (cases "bytes_find data sub")
  case None
  then show ?thesis .
next
  case (Some off)
  then have "find_from 0 sub data = Some off" by (simp add: bytes_find_def)
  from find_from_Some [OF this] assms show ?thesis by simp
qed

lemma occurs_at_length: "occurs_at sub data i \<Longrightarrow> i + length sub \<le> length data"
proof -
  assume a: "occurs_at sub data i"
  then have i: "i \<le> length data" by (simp add: occurs_at_def)
  from a have "length (take (length sub) (drop i data)) = length sub" by (simp add: occurs_at_def)
  then have "min (length sub) (length data - i) = length sub" by simp
  then have "length sub \<le> length data - i" by (simp add: min_def split: if_splits)
  with i show ?thesis by arith
qed

lemma seek_write_props:
  assumes occ: "occurs_at sub data off" and len: "length rp = length sub"
  shows "length (seek_write off rp data) = length data"
    and "take (length rp) (drop off (seek_write off rp data)) = rp"
    and "\<forall>j < length data. j < off \<or> off + length rp \<le> j \<longrightarrow> seek_write off rp data ! j = data ! j"
proof -
  have b: "off + length rp \<le> length data" using occurs_at_length [OF occ] len by simp
  then have lt: "length (take off data) = off" by simp
  show "length (seek_write off rp data) = length data"
    using b by (simp add: seek_write_def)
  show "take (length rp) (drop off (seek_write off rp data)) = rp"
    using lt by (simp add: seek_write_def)
  show "\<forall>j < length data. j < off \<or> off + length rp \<le> j \<longrightarrow> seek_write off rp data ! j = data ! j"
  proof (intro allI impI)
    fix j assume j: "j < length data" and o: "j < off \<or> off + length rp \<le> j"
    from o show "seek_write off rp data ! j = data ! j"
    proof
      assume "j < off"
      then show ?thesis using lt by (simp add: seek_write_def nth_append)
    next
      assume h: "off + length rp \<le> j"
      have l2: "length (take off data @ rp) = off + length rp" using lt by simp
      have "seek_write off rp data = (take off data @ rp) @ drop (off + length rp) data"
        by (simp add: seek_write_def)
      then have "seek_write off rp data ! j = drop (off + length rp) data ! (j - (off + length rp))"
        using h by (simp only: nth_append l2) simp
      also have "\<dots> = data ! (off + length rp + (j - (off + length rp)))"
        using b by (intro nth_drop) 
      also have "\<dots> = data ! j" using h by simp
      finally show ?thesis .
    qed
  qed
qed

lemma seek_write_same:
  assumes "occurs_at sub data off"
  shows "seek_write off sub data = data"
proof -
  from assms have t: "take (length sub) (drop off data) = sub" by (simp add: occurs_at_def)
  have "drop (off + length sub) data = drop (length sub) (drop off data)"
    by (simp add: add.commute)
  then have "seek_write off sub data
      = take off data @ (take (length sub) (drop off data) @ drop (length sub) (drop off data))"
    by (simp only: seek_write_def t)
  also have "\<dots> = take off data @ drop off data"
    by (simp only: append_take_drop_id)
  also have "\<dots> = data" by simp
  finally show ?thesis .
qed

section \<open>edit_dll on one file\<close>

lemma edit_dll_parsed:
  assumes "parse_signature sp = Inr sb" "parse_signature rp = Inr rb" "dlls w p = Some data"
  shows "edit_dll p sp rp w =
     (case bytes_find data sb of
        None \<Rightarrow> (None, w\<lparr>out := out w @ [Editing p, CannotFind (str_strip sp), Reinstall]\<rparr>)
      | Some off \<Rightarrow>
          (None, w\<lparr>out := out w @ [Editing p, Found (str_strip sp) off, Replaced rp off],
                    dlls := (dlls w)(p \<mapsto> seek_write off rb data),
                    patch_txt := Some rp\<rparr>))"
  using assms
  by (simp add: edit_dll_def parse_signature_strip print_def Let_def split: option.splits)

lemma edit_dll_same_bytes:
  assumes "parse_signature sp = parse_signature rp"
  shows "dlls (snd (edit_dll p sp rp w)) = dlls w"
proof (cases "parse_signature rp")
  case (Inl e)
  then show ?thesis using assms
    by (simp add: edit_dll_def parse_signature_strip print_def Let_def)
next
  case (Inr rb)
  with assms have sp: "parse_signature sp = Inr rb" by simp
  show ?thesis
  proof (cases "dlls w p")
    case None
    then show ?thesis using sp Inr
      by (simp add: edit_dll_def parse_signature_strip print_def Let_def)
  next
    case (Some data)
    show ?thesis
    proof (cases "bytes_find data rb")
      case None
      then show ?thesis by (simp add: edit_dll_parsed [OF sp Inr Some])
    next
      case (Some off)
      then have "find_from 0 rb data = Some off" by (simp add: bytes_find_def)
      from find_from_Some [OF this] have "occurs_at rb data off" by simp
      then have "seek_write off rb data = data" by (rule seek_write_same)
      then have "(dlls w)(p \<mapsto> seek_write off rb data) = dlls w"
        using \<open>dlls w p = Some data\<close> by (simp add: map_upd_triv)
      then show ?thesis by (simp add: edit_dll_parsed [OF sp Inr \<open>dlls w p = Some data\<close>] Some)
    qed
  qed
qed

text \<open>
  C2: when the file holds the search sequence and the replacement has the same length,
  \<open>edit_dll\<close> returns without an exception, the file's new content has the replacement at
  the lowest offset at which the search sequence occurred, and every byte outside that
  range, like every other file, is as it was.
\<close>

theorem edit_dll_overwrites_first_occurrence:
  assumes sp: "parse_signature search_pattern = Inr sb"
    and rp: "parse_signature replace_pattern = Inr rb"
    and len: "length rb = length sb"
    and fl: "dlls w game_path = Some data"
    and occ: "occurs_at sb data i"
  shows "\<exists>off data'.
           bytes_find data sb = Some off \<and> occurs_at sb data off \<and>
           (\<forall>j < off. \<not> occurs_at sb data j) \<and>
           fst (edit_dll game_path search_pattern replace_pattern w) = None \<and>
           dlls (snd (edit_dll game_path search_pattern replace_pattern w))
             = (dlls w)(game_path \<mapsto> data') \<and>
           length data' = length data \<and>
           take (length rb) (drop off data') = rb \<and>
           (\<forall>j < length data. j < off \<or> off + length rb \<le> j \<longrightarrow> data' ! j = data ! j)"
proof -
  from bytes_find_first [OF occ] obtain off where f: "bytes_find data sb = Some off"
    and o: "occurs_at sb data off" and least: "\<forall>j < off. \<not> occurs_at sb data j" by blast
  let ?d = "seek_write off rb data"
  have e: "fst (edit_dll game_path search_pattern replace_pattern w) = None"
      "dlls (snd (edit_dll game_path search_pattern replace_pattern w)) = (dlls w)(game_path \<mapsto> ?d)"
    by (simp_all add: edit_dll_parsed [OF sp rp fl] f)
  note p = seek_write_props [OF o len]
  show ?thesis
    using f o least e p by (intro exI [of _ off] exI [of _ ?d]) blast
qed

text \<open>C2 on a six-byte file that holds the search sequence twice.\<close>

theorem edit_dll_overwrites_first_occurrence_witness:
  "\<exists>data'.
     fst (edit_dll ''a.dll'' ''02 03'' ''0A 0B''
            \<lparr>dlls = [''a.dll'' \<mapsto> [1, 2, 3, 4, 2, 3]], patch_txt = None, out = []\<rparr>) = None \<and>
     dlls (snd (edit_dll ''a.dll'' ''02 03'' ''0A 0B''
            \<lparr>dlls = [''a.dll'' \<mapsto> [1, 2, 3, 4, 2, 3]], patch_txt = None, out = []\<rparr>))
       = [''a.dll'' \<mapsto> data'] \<and>
     length data' = 6 \<and> take 2 (drop 1 data') = [0x0A, 0x0B] \<and>
     data' ! 0 = 1 \<and> data' ! 3 = 4 \<and> data' ! 4 = 2 \<and> data' ! 5 = 3"
proof -
  let ?w = "\<lparr>dlls = [''a.dll'' \<mapsto> [1, 2, 3, 4, 2, 3 :: byte]], patch_txt = None, out = []\<rparr>"
  have sp: "parse_signature ''02 03'' = Inr [2, 3]" by code_simp
  have rp: "parse_signature ''0A 0B'' = Inr [0x0A, 0x0B]" by code_simp
  have len: "length [0x0A, 0x0B :: byte] = length [2, 3 :: byte]" by simp
  have fl: "dlls ?w ''a.dll'' = Some [1, 2, 3, 4, 2, 3]" by simp
  have occ: "occurs_at [2, 3] [1, 2, 3, 4, 2, 3] 4" by (simp add: occurs_at_def)
  have first: "bytes_find [1, 2, 3, 4, 2, 3] [2, 3 :: byte] = Some 1"
    by (simp add: bytes_find_def)
  from edit_dll_overwrites_first_occurrence [OF sp rp len fl occ]
  obtain off data' where f: "bytes_find [1, 2, 3, 4, 2, 3] [2, 3 :: byte] = Some off"
    and e: "fst (edit_dll ''a.dll'' ''02 03'' ''0A 0B'' ?w) = None"
      "dlls (snd (edit_dll ''a.dll'' ''02 03'' ''0A 0B'' ?w)) = (dlls ?w)(''a.dll'' \<mapsto> data')"
    and l: "length data' = length [1, 2, 3, 4, 2, 3 :: byte]"
    and t: "take (length [0x0A, 0x0B :: byte]) (drop off data') = [0x0A, 0x0B]"
    and r: "\<forall>j < length [1, 2, 3, 4, 2, 3 :: byte].
              j < off \<or> off + length [0x0A, 0x0B :: byte] \<le> j \<longrightarrow> data' ! j = [1, 2, 3, 4, 2, 3] ! j"
    by blast
  from f first have off: "off = 1" by simp
  have "data' ! 0 = 1" "data' ! 3 = 4" "data' ! 4 = 2" "data' ! 5 = 3"
    using r [rule_format, of 0] r [rule_format, of 3] r [rule_format, of 4] r [rule_format, of 5]
    by (simp_all add: off)
  moreover have "take 2 (drop 1 data') = [0x0A, 0x0B]" using t by (simp add: off numeral_2_eq_2)
  moreover have "length data' = 6" using l by simp
  moreover have "dlls (snd (edit_dll ''a.dll'' ''02 03'' ''0A 0B'' ?w)) = [''a.dll'' \<mapsto> data']"
    using e(2) by simp
  ultimately show ?thesis using e(1) by blast
qed

text \<open>
  C3: when the file does not hold the search sequence, \<open>edit_dll\<close> prints that it cannot
  find the pattern, changes neither the file nor the record file, raises nothing, and the
  run goes on with the next file.
\<close>

theorem edit_dll_pattern_absent:
  assumes sp: "parse_signature search_pattern = Inr sb"
    and rp: "parse_signature replace_pattern = Inr rb"
    and fl: "dlls w game_path = Some data"
    and absent: "\<forall>i. \<not> occurs_at sb data i"
  shows "edit_dll game_path search_pattern replace_pattern w
           = (None, w\<lparr>out := out w @ [Editing game_path, CannotFind (str_strip search_pattern),
                                        Reinstall]\<rparr>) \<and>
         dlls (snd (edit_dll game_path search_pattern replace_pattern w)) = dlls w \<and>
         patch_txt (snd (edit_dll game_path search_pattern replace_pattern w)) = patch_txt w \<and>
         edit_each (game_path # rest) search_pattern replace_pattern w
           = edit_each rest search_pattern replace_pattern
               (snd (edit_dll game_path search_pattern replace_pattern w))"
proof -
  have e: "edit_dll game_path search_pattern replace_pattern w
           = (None, w\<lparr>out := out w @ [Editing game_path, CannotFind (str_strip search_pattern),
                                        Reinstall]\<rparr>)"
    by (simp add: edit_dll_parsed [OF sp rp fl] bytes_find_absent [OF absent])
  show ?thesis by (simp add: e)
qed

text \<open>C3 on a four-byte file without the search sequence.\<close>

theorem edit_dll_pattern_absent_witness:
  "edit_dll ''a.dll'' '' 02 04 '' ''0A 0B''
     \<lparr>dlls = [''a.dll'' \<mapsto> [1, 2, 3, 4]], patch_txt = None, out = []\<rparr>
     = (None, \<lparr>dlls = [''a.dll'' \<mapsto> [1, 2, 3, 4]], patch_txt = None,
               out = [Editing ''a.dll'', CannotFind ''02 04'', Reinstall]\<rparr>)"
proof -
  have sp: "parse_signature '' 02 04 '' = Inr [2, 4]" by code_simp
  have rp: "parse_signature ''0A 0B'' = Inr [0x0A, 0x0B]" by code_simp
  have fl: "dlls \<lparr>dlls = [''a.dll'' \<mapsto> [1, 2, 3, 4]], patch_txt = None, out = []\<rparr> ''a.dll''
              = Some [1, 2, 3, 4]" by simp
  have st: "str_strip '' 02 04 '' = ''02 04''" by code_simp
  have absent: "\<forall>i. \<not> occurs_at [2, 4] [1, 2, 3, 4 :: byte] i"
  proof (intro allI notI)
    fix i assume a: "occurs_at [2, 4] [1, 2, 3, 4 :: byte] i"
    from occurs_at_length [OF a] have "i \<le> 2" by simp
    then have "i = 0 \<or> i = 1 \<or> i = 2" by arith
    with a show False by (auto simp: occurs_at_def)
  qed
  show ?thesis
    using edit_dll_pattern_absent [OF sp rp fl absent] by (simp add: st)
qed

lemma edit_dll_same_pattern_keeps_file:
  assumes rp: "parse_signature replace_pattern = Inr rb"
    and fl: "dlls w game_path = Some data"
    and occ: "occurs_at rb data i"
  shows "\<exists>off. bytes_find data rb = Some off \<and>
           edit_dll game_path replace_pattern replace_pattern w
             = (None, w\<lparr>out := out w @ [Editing game_path, Found (str_strip replace_pattern) off,
                                          Replaced replace_pattern off],
                          patch_txt := Some replace_pattern\<rparr>) \<and>
           dlls (snd (edit_dll game_path replace_pattern replace_pattern w)) = dlls w"
proof -
  from bytes_find_first [OF occ] obtain off where f: "bytes_find data rb = Some off"
    and o: "occurs_at rb data off" by blast
  have "(dlls w)(game_path \<mapsto> seek_write off rb data) = dlls w"
    using seek_write_same [OF o] fl by (simp add: map_upd_triv)
  then have "edit_dll game_path replace_pattern replace_pattern w
             = (None, w\<lparr>out := out w @ [Editing game_path, Found (str_strip replace_pattern) off,
                                          Replaced replace_pattern off],
                          patch_txt := Some replace_pattern\<rparr>)"
    by (simp add: edit_dll_parsed [OF rp rp fl] f)
  then show ?thesis using f by simp
qed

section \<open>Running patch again\<close>

lemma patch_fields_Inr:
  assumes "patch_fields width0 height0 dw dh = Inr f"
  shows "\<exists>wb hb. f_width f = hex_text wb \<and> f_height f = hex_text hb"
  using assms
  by (auto simp: patch_fields_def split: prod.splits sum.splits)

lemma edit_dll_same_bytes_result:
  assumes sp: "parse_signature sp = Inr rb" and rp: "parse_signature rp = Inr rb"
  shows "fst (edit_dll p sp rp w) = None \<and> dlls (snd (edit_dll p sp rp w)) = dlls w \<and>
         (patch_txt (snd (edit_dll p sp rp w)) = patch_txt w \<or>
          patch_txt (snd (edit_dll p sp rp w)) = Some rp)"
proof (cases "dlls w p")
  case None
  have "fst (edit_dll p sp rp w) = None \<and>
         patch_txt (snd (edit_dll p sp rp w)) = patch_txt w"
    using sp rp None by (simp add: edit_dll_def parse_signature_strip print_def Let_def)
  then show ?thesis using edit_dll_same_bytes [of sp rp p w] sp rp by simp
next
  case (Some data)
  have "fst (edit_dll p sp rp w) = None \<and>
         (patch_txt (snd (edit_dll p sp rp w)) = patch_txt w \<or>
          patch_txt (snd (edit_dll p sp rp w)) = Some rp)"
    by (cases "bytes_find data rb") (simp_all add: edit_dll_parsed [OF sp rp Some])
  then show ?thesis using edit_dll_same_bytes [of sp rp p w] sp rp by simp
qed

lemma edit_each_same_bytes:
  assumes sp: "parse_signature sp = Inr rb" and rp: "parse_signature rp = Inr rb"
  shows "patch_txt w = Some rp \<Longrightarrow>
         fst (edit_each ps sp rp w) = None \<and> dlls (snd (edit_each ps sp rp w)) = dlls w \<and>
         patch_txt (snd (edit_each ps sp rp w)) = Some rp"
proof (induction ps arbitrary: w)
  case Nil
  then show ?case by simp
next
  case (Cons p ps)
  obtain w' where e: "edit_dll p sp rp w = (None, w')"
    using edit_dll_same_bytes_result [OF sp rp, of p w] by (cases "edit_dll p sp rp w") auto
  with edit_dll_same_bytes_result [OF sp rp, of p w] Cons.prems
  have w': "dlls w' = dlls w" "patch_txt w' = Some rp" by auto
  show ?case using Cons.IH [OF w'(2)] w'(1) by (simp add: e)
qed

lemma set_concat_replicate: "set (concat (replicate k xs)) \<subseteq> set xs"
  by (induction k) auto

lemma first_line_replace_pattern:
  "first_line (build_replace_pattern (hex_text wb) (hex_text hb))
     = Inr (build_replace_pattern (hex_text wb) (hex_text hb))"
proof -
  let ?b = "hex_text wb @ '' '' @ hex_text hb @ '' ''"
  define U where "U = set ''0123456789ABCDEF ''"
  have nl: "CHR 0x0A \<notin> U" "CHR 0x0D \<notin> U" by (simp_all add: U_def)
  have "set ?b \<subseteq> U"
    using hex_text_chars [of wb] hex_text_chars [of hb] unfolding U_def [symmetric]
    by (auto simp: U_def)
  then have "set (build_replace_pattern (hex_text wb) (hex_text hb)) \<subseteq> U"
    using set_concat_replicate [of 15 ?b] unfolding build_replace_pattern_def by blast
  then have "\<forall>c \<in> set (build_replace_pattern (hex_text wb) (hex_text hb)). c \<noteq> CHR 0x0A \<and> c \<noteq> CHR 0x0D"
    using nl by blast
  then have "takeWhile (\<lambda>c. c \<noteq> CHR 0x0A \<and> c \<noteq> CHR 0x0D) (build_replace_pattern (hex_text wb) (hex_text hb))
        = build_replace_pattern (hex_text wb) (hex_text hb)"
    by (simp add: takeWhile_eq_all_conv)
  moreover have "build_replace_pattern (hex_text wb) (hex_text hb) \<noteq> []"
    by (simp add: build_replace_pattern_def numeral_eq_Suc)
  ultimately show ?thesis by (simp add: first_line_def)
qed

lemma patch_rerun:
  assumes mon: "get_desktop_resolution monitors = Inr (dw, dh)"
    and pf: "patch_fields width height dw dh = Inr f"
    and rec: "patch_txt w = Some (build_replace_pattern (f_width f) (f_height f))"
  shows "fst (patch (Some (width, height)) monitors w) = None \<and>
         dlls (snd (patch (Some (width, height)) monitors w)) = dlls w \<and>
         patch_txt (snd (patch (Some (width, height)) monitors w)) = patch_txt w"
proof -
  from patch_fields_Inr [OF pf] obtain wb hb where
    f: "f_width f = hex_text wb" "f_height f = hex_text hb" by blast
  let ?rp = "build_replace_pattern (hex_text wb) (hex_text hb)"
  let ?w = "print (WillSearch (str_strip ?rp)) (print PatchTxtFound
              (print (YamlHeight height) (print (YamlWidth width) w)))"
  have rp: "parse_signature ?rp = Inr (concat (replicate 15 (wb @ hb)))"
    by (rule parse_replace_pattern)
  have sp: "parse_signature (str_strip ?rp) = Inr (concat (replicate 15 (wb @ hb)))"
    by (simp add: parse_signature_strip rp)
  have w: "patch_txt ?w = Some ?rp" "dlls ?w = dlls w"
    using rec by (simp_all add: print_def f)
  have p: "patch (Some (width, height)) monitors w = edit_each target_files (str_strip ?rp) ?rp ?w"
    using rec by (simp add: patch_def mon pf f first_line_replace_pattern print_def Let_def)
  show ?thesis
    using edit_each_same_bytes [OF sp rp w(1), of target_files] w rec
    by (simp add: p f)
qed

text \<open>
  C7: when the file holds the replacement sequence, \<open>edit_dll\<close> run with the replacement
  pattern as its search pattern too returns without an exception and leaves every byte of
  every file as it was; only the record file, now the pattern, and the output change.
  So a run of \<open>patch\<close> that finds in the record file the pattern of the resolution it is
  run with ends without an exception and leaves every file and the record file as they
  were.
\<close>

theorem rerun_with_recorded_pattern_keeps_files:
  "(parse_signature replace_pattern = Inr rb \<and> dlls w game_path = Some data \<and>
    occurs_at rb data i \<longrightarrow>
      (\<exists>off. bytes_find data rb = Some off \<and>
         edit_dll game_path replace_pattern replace_pattern w
           = (None, w\<lparr>out := out w @ [Editing game_path, Found (str_strip replace_pattern) off,
                                        Replaced replace_pattern off],
                        patch_txt := Some replace_pattern\<rparr>) \<and>
         dlls (snd (edit_dll game_path replace_pattern replace_pattern w)) = dlls w)) \<and>
   (get_desktop_resolution monitors = Inr (dw, dh) \<and>
    patch_fields width height dw dh = Inr f \<and>
    patch_txt w' = Some (build_replace_pattern (f_width f) (f_height f)) \<longrightarrow>
      fst (patch (Some (width, height)) monitors w') = None \<and>
      dlls (snd (patch (Some (width, height)) monitors w')) = dlls w' \<and>
      patch_txt (snd (patch (Some (width, height)) monitors w')) = patch_txt w')"
  using edit_dll_same_pattern_keeps_file [of replace_pattern rb w game_path data i]
    patch_rerun [of monitors dw dh width height f w']
  by blast

text \<open>
  C7 on a file that was patched with the same pattern before, and on a rerun of \<open>patch\<close>
  at 1280 by 720 over a library that holds the table of that resolution.
\<close>

theorem rerun_with_recorded_pattern_keeps_files_witness:
  "edit_dll ''a.dll'' ''0A 0B '' ''0A 0B ''
       \<lparr>dlls = [''a.dll'' \<mapsto> [1, 0x0A, 0x0B, 4]], patch_txt = Some ''0A 0B '', out = []\<rparr>
     = (None, \<lparr>dlls = [''a.dll'' \<mapsto> [1, 0x0A, 0x0B, 4]], patch_txt = Some ''0A 0B '',
               out = [Editing ''a.dll'', Found ''0A 0B'' 1, Replaced ''0A 0B '' 1]\<rparr>) \<and>
   fst (patch (Some (1280, 720)) [\<lparr>m_width = 1920, m_height = 1080, is_primary = True\<rparr>]
          \<lparr>dlls = [''../hackGU_title.dll'' \<mapsto> 7 # concat (replicate 15 [0, 5, 0, 0, 0xD0, 2, 0, 0])],
           patch_txt = Some (build_replace_pattern ''00 05 00 00'' ''D0 02 00 00''),
           out = []\<rparr>) = None \<and>
   dlls (snd (patch (Some (1280, 720)) [\<lparr>m_width = 1920, m_height = 1080, is_primary = True\<rparr>]
          \<lparr>dlls = [''../hackGU_title.dll'' \<mapsto> 7 # concat (replicate 15 [0, 5, 0, 0, 0xD0, 2, 0, 0])],
           patch_txt = Some (build_replace_pattern ''00 05 00 00'' ''D0 02 00 00''),
           out = []\<rparr>))
     = [''../hackGU_title.dll'' \<mapsto> 7 # concat (replicate 15 [0, 5, 0, 0, 0xD0, 2, 0, 0])]"
proof -
  let ?w = "\<lparr>dlls = [''a.dll'' \<mapsto> [1, 0x0A, 0x0B, 4 :: byte]], patch_txt = Some ''0A 0B '', out = []\<rparr>"
  let ?w' = "\<lparr>dlls = [''../hackGU_title.dll'' \<mapsto> 7 # concat (replicate 15 [0, 5, 0, 0, 0xD0, 2, 0, 0 :: byte])],
           patch_txt = Some (build_replace_pattern ''00 05 00 00'' ''D0 02 00 00''),
           out = []\<rparr>"
  let ?m = "[\<lparr>m_width = 1920, m_height = 1080, is_primary = True\<rparr>]"
  let ?f = "\<lparr>f_special = ''00 2D 00 00'', f_width = ''00 05 00 00'',
            f_height = ''D0 02 00 00'', f_offset = ''40 01 00 00''\<rparr>"
  have rp: "parse_signature ''0A 0B '' = Inr [0x0A, 0x0B]" by code_simp
  have fl: "dlls ?w ''a.dll'' = Some [1, 0x0A, 0x0B, 4]" by simp
  have st: "str_strip ''0A 0B '' = ''0A 0B''" by code_simp
  have occ: "occurs_at [0x0A, 0x0B] [1, 0x0A, 0x0B, 4 :: byte] 1" by (simp add: occurs_at_def)
  have first: "bytes_find [1, 0x0A, 0x0B, 4] [0x0A, 0x0B :: byte] = Some 1"
    by (simp add: bytes_find_def)
  have mon: "get_desktop_resolution ?m = Inr (1920, 1080)"
    by (simp add: get_desktop_resolution_def)
  have pf: "patch_fields 1280 720 1920 1080 = Inr ?f"
    by code_simp
  have rec: "patch_txt ?w' = Some (build_replace_pattern (f_width ?f) (f_height ?f))" by simp
  note t = rerun_with_recorded_pattern_keeps_files
    [of "''0A 0B ''" "[0x0A, 0x0B]" ?w "''a.dll''" "[1, 0x0A, 0x0B, 4]" 1 ?m 1920 1080 1280 720 ?f ?w']
  from t rp fl occ
  obtain off where f: "bytes_find [1, 0x0A, 0x0B, 4] [0x0A, 0x0B :: byte] = Some off"
    and e: "edit_dll ''a.dll'' ''0A 0B '' ''0A 0B '' ?w
             = (None, ?w\<lparr>out := out ?w @ [Editing ''a.dll'', Found (str_strip ''0A 0B '') off,
                                          Replaced ''0A 0B '' off],
                          patch_txt := Some ''0A 0B ''\<rparr>)"
    by blast
  from f first have off: "off = 1" by simp
  have a: "edit_dll ''a.dll'' ''0A 0B '' ''0A 0B '' ?w
     = (None, \<lparr>dlls = [''a.dll'' \<mapsto> [1, 0x0A, 0x0B, 4]], patch_txt = Some ''0A 0B '',
               out = [Editing ''a.dll'', Found ''0A 0B'' 1, Replaced ''0A 0B '' 1]\<rparr>)"
    unfolding e off st by simp
  from t mon pf rec
  have b: "fst (patch (Some (1280, 720)) ?m ?w') = None"
    and c: "dlls (snd (patch (Some (1280, 720)) ?m ?w')) = dlls ?w'"
    by blast+
  show ?thesis using a b c by simp
qed

end
